theory Spec2Isabelle
  imports Complex_Main "HOL-Library.Word"
begin

section \<open>The event counter of \<^verbatim>\<open>lib/counter.js\<close>\<close>

subsection \<open>Data model\<close>

text \<open>
  An instance has the three fields the constructor assigns: \<^verbatim>\<open>maxDuration\<close>,
  \<^verbatim>\<open>data\<close> (a \<^verbatim>\<open>Uint32Array\<close>, here a list of 32-bit words) and
  \<^verbatim>\<open>lastUpdatedAt\<close>. The type of \<^verbatim>\<open>maxDuration\<close> is a parameter: the
  constructor stores its argument as given (any JavaScript number), while the methods are
  modelled on instances whose \<^verbatim>\<open>maxDuration\<close> is a natural number.

  \<^verbatim>\<open>Counter.now()\<close> is \<^verbatim>\<open>Math.floor(Date.now() / 1000)\<close>, whole seconds since
  the Unix epoch: a natural number. It is the only input the methods read from outside, so
  each method takes the clock reading \<open>now\<close> as an argument.
\<close>

type_synonym u32 = "32 word"

record 'n counter =
  maxDuration :: 'n
  data :: "u32 list"
  lastUpdatedAt :: nat

text \<open>
  A JavaScript number as an argument: not-a-number, the two infinities, or a finite value.
  Finite values are rationals and their arithmetic is exact; on integers of magnitude
  below \<open>2 ^ 53\<close>, and on the comparisons and truncations used here, this is what
  double-precision arithmetic computes. An absent argument (\<^verbatim>\<open>undefined\<close>) is \<open>None\<close>.
\<close>

datatype jsnum = NaN | NegInf | Num rat | PosInf

datatype js_error = RangeError

text \<open>
  The instances the methods are modelled on: a buffer of \<^verbatim>\<open>maxDuration\<close> buckets with
  \<^verbatim>\<open>maxDuration\<close> positive. On these every index computed below is within the
  buffer, and \<^verbatim>\<open>%\<close> on non-negative operands is \<open>mod\<close>.
\<close>

definition well_formed :: "nat counter \<Rightarrow> bool" where
  "well_formed c \<longleftrightarrow> 0 < maxDuration c \<and> length (data c) = maxDuration c"

subsection \<open>Typed-array primitives\<close>

text \<open>
  \<^verbatim>\<open>data.fill(value, start, end)\<close> for non-negative \<^verbatim>\<open>start\<close> and \<^verbatim>\<open>end\<close>:
  every position \<open>k\<close> of the array with \<open>start \<le> k < end\<close> is set to \<^verbatim>\<open>value\<close>
  (bounds beyond the length are clamped to it), the length is unchanged.
  \<^verbatim>\<open>data.fill(value)\<close> is \<open>fill xs value 0 (length xs)\<close>.
\<close>

definition fill :: "'a list \<Rightarrow> 'a \<Rightarrow> nat \<Rightarrow> nat \<Rightarrow> 'a list" where
  "fill xs v start stop =
     map (\<lambda>k. if start \<le> k \<and> k < stop then v else xs ! k) [0..<length xs]"

text \<open>
  \<^verbatim>\<open>new Uint32Array(length)\<close> with a number, as ECMAScript defines it since its 2017
  edition: the length is \<^verbatim>\<open>ToIndex(length)\<close>, which truncates towards zero
  (not-a-number counts as 0) and throws a \<^verbatim>\<open>RangeError\<close> outside \<open>0 .. 2 ^ 53 - 1\<close>;
  allocating the buffer throws a \<^verbatim>\<open>RangeError\<close> when the host cannot provide it. \<open>limit\<close> is the largest length the host allocates. The new
  array holds zeros.
\<close>

definition ToIndex :: "jsnum \<Rightarrow> js_error + nat" where
  "ToIndex v =
     (case v of
        NaN \<Rightarrow> Inr 0
      | NegInf \<Rightarrow> Inl RangeError
      | PosInf \<Rightarrow> Inl RangeError
      | Num r \<Rightarrow>
          (let integer = (if r < 0 then \<lceil>r\<rceil> else \<lfloor>r\<rfloor>)
           in if integer < 0 \<or> integer > 2 ^ 53 - 1 then Inl RangeError
              else Inr (nat integer)))"

definition Uint32Array :: "nat \<Rightarrow> jsnum \<Rightarrow> js_error + u32 list" where
  "Uint32Array limit len =
     (case ToIndex len of
        Inl e \<Rightarrow> Inl e
      | Inr n \<Rightarrow> if n > limit then Inl RangeError else Inr (replicate n 0))"

text \<open>
  A read \<^verbatim>\<open>data[idx]\<close>: the bucket as a number when \<^verbatim>\<open>idx\<close> is an integer within
  the array, \<^verbatim>\<open>undefined\<close> (\<open>None\<close>) otherwise.
\<close>

definition element :: "u32 list \<Rightarrow> rat \<Rightarrow> nat option" where
  "element xs idx =
     (if of_int \<lfloor>idx\<rfloor> = idx \<and> 0 \<le> idx \<and> idx < of_nat (length xs)
      then Some (unat (xs ! nat \<lfloor>idx\<rfloor>)) else None)"

subsection \<open>The constructor and \<^verbatim>\<open>create\<close>\<close>

text \<open>
  The default parameter replaces an absent argument by 60. The object literal is evaluated
  field by field: the argument is stored as given, the array is allocated (which may throw)
  and filled with 0, and the clock is read.
\<close>

definition constructor :: "nat \<Rightarrow> nat \<Rightarrow> jsnum option \<Rightarrow> js_error + jsnum counter" where
  "constructor limit now arg =
     (let given = (case arg of None \<Rightarrow> Num 60 | Some v \<Rightarrow> v)
      in case Uint32Array limit given of
           Inl e \<Rightarrow> Inl e
         | Inr xs \<Rightarrow>
             Inr \<lparr>maxDuration = given, data = fill xs 0 0 (length xs), lastUpdatedAt = now\<rparr>)"

definition create :: "nat \<Rightarrow> nat \<Rightarrow> jsnum option \<Rightarrow> js_error + jsnum counter" where
  "create limit now arg = constructor limit now arg"

subsection \<open>\<^verbatim>\<open>_getIndex\<close>: advance the buffer to \<open>now\<close>\<close>

text \<open>
  \<^verbatim>\<open>elapsed\<close> is an integer: it is negative when the clock reading is below
  \<^verbatim>\<open>lastUpdatedAt\<close>. The branches are those of lines 57 to 71, in the source's
  order; a write \<^verbatim>\<open>data[index] = 0\<close> is a list update. The method returns
  \<^verbatim>\<open>index\<close>; the instance is returned with the buckets zeroed and
  \<^verbatim>\<open>lastUpdatedAt\<close> set to \<open>now\<close> (line 73).
\<close>

definition getIndex :: "nat \<Rightarrow> nat counter \<Rightarrow> nat \<times> nat counter" where
  "getIndex now c =
     (let index = now mod maxDuration c;
          elapsed = int now - int (lastUpdatedAt c);
          zeroed =
            (if elapsed = 1 then (data c)[index := 0]
             else if elapsed \<ge> int (maxDuration c) then fill (data c) 0 0 (length (data c))
             else if elapsed > 1 then
               (let start = (lastUpdatedAt c + 1) mod maxDuration c;
                    stop = (now + 1) mod maxDuration c
                in if start < stop then fill (data c) 0 start stop
                   else fill (fill (data c) 0 start (maxDuration c)) 0 0 stop)
             else data c)
      in (index, c\<lparr>data := zeroed, lastUpdatedAt := now\<rparr>))"

subsection \<open>\<^verbatim>\<open>increment\<close>\<close>

text \<open>
  \<^verbatim>\<open>++this.data[index]\<close> stores the successor modulo \<open>2 ^ 32\<close>; when the stored value
  is 0 the previous count is written back and the call returns \<^verbatim>\<open>false\<close>.
\<close>

definition increment :: "nat \<Rightarrow> nat counter \<Rightarrow> bool \<times> nat counter" where
  "increment now c =
     (let (index, c1) = getIndex now c;
          lastCount = data c1 ! index;
          c2 = c1\<lparr>data := (data c1)[index := lastCount + 1]\<rparr>
      in if data c2 ! index = 0
         then (False, c2\<lparr>data := (data c2)[index := lastCount]\<rparr>)
         else (True, c2))"

subsection \<open>\<^verbatim>\<open>getCount\<close>\<close>

text \<open>
  The clamping of lines 115 to 121. \<^verbatim>\<open>isNaN\<close> holds of an absent argument and of
  not-a-number; the comparisons with the infinities are decided by their sign.
\<close>

definition clampDuration :: "jsnum option \<Rightarrow> nat \<Rightarrow> rat" where
  "clampDuration duration m =
     (case duration of
        None \<Rightarrow> of_nat m
      | Some NaN \<Rightarrow> of_nat m
      | Some PosInf \<Rightarrow> of_nat m
      | Some NegInf \<Rightarrow> 1
      | Some (Num d) \<Rightarrow> if d > of_nat m then of_nat m else if d < 1 then 1 else d)"

text \<open>
  \<^verbatim>\<open>count += data[idx]\<close>: \<open>None\<close> is not-a-number, the sum with \<^verbatim>\<open>undefined\<close>.
  The count is a double in the source and an exact natural number here: sums up to
  \<open>2 ^ 53\<close> are exact in a double, and the rounded sum is above \<open>2 ^ 53 - 1\<close> exactly when
  the exact one is, so the final comparison decides alike and the returned count is the same.
\<close>

definition add_element :: "nat option \<Rightarrow> nat option \<Rightarrow> nat option" where
  "add_element count v =
     (case count of None \<Rightarrow> None
      | Some a \<Rightarrow> (case v of None \<Rightarrow> None | Some b \<Rightarrow> Some (a + b)))"

text \<open>
  The loop of lines 123 to 126, from \<^verbatim>\<open>i = duration - 1\<close> down while \<^verbatim>\<open>i >= 0\<close>.
  With an integral duration every \<^verbatim>\<open>i\<close> and \<^verbatim>\<open>idx\<close> is an integer and the arithmetic
  is exact in the source as it is here. With a non-integral duration between 1 and
  \<^verbatim>\<open>maxDuration\<close> the source rounds \<^verbatim>\<open>index - i\<close> to a double, which the exact
  arithmetic here does not follow; nothing below is stated about such durations.
\<close>

function sumLoop :: "u32 list \<Rightarrow> nat \<Rightarrow> nat \<Rightarrow> rat \<Rightarrow> nat option \<Rightarrow> nat option" where
  "sumLoop xs m index i count =
     (if i \<ge> 0 then
        (let idx = (if of_nat index - i < 0 then of_nat index - i + of_nat m
                    else of_nat index - i)
         in sumLoop xs m index (i - 1) (add_element count (element xs idx)))
      else count)"
  by pat_completeness auto
termination
  by (relation "measure (\<lambda>(xs, m, index, i, count). nat (\<lfloor>i\<rfloor> + 1))") auto

definition MAX_SAFE_INTEGER :: nat where
  "MAX_SAFE_INTEGER = 2 ^ 53 - 1"

definition getCount :: "nat \<Rightarrow> jsnum option \<Rightarrow> nat counter \<Rightarrow> int \<times> nat counter" where
  "getCount now duration c =
     (let (index, c1) = getIndex now c;
          d = clampDuration duration (maxDuration c1);
          count = sumLoop (data c1) (maxDuration c1) index (d - 1) (Some 0)
      in (case count of
            None \<Rightarrow> - 1
          | Some n \<Rightarrow> if n \<le> MAX_SAFE_INTEGER then int n else - 1,
          c1))"

subsection \<open>Reference notions of the specification\<close>

text \<open>
  The circular half-open range of indices from \<open>start\<close> up to, not including, \<open>stop\<close> in
  a buffer of \<open>m\<close> buckets; it is made of two segments when it wraps past the end.
\<close>

definition circular_range :: "nat \<Rightarrow> nat \<Rightarrow> nat \<Rightarrow> nat set" where
  "circular_range start stop m =
     (if start \<le> stop then {start..<stop} else {start..<m} \<union> {0..<stop})"

text \<open>
  The sum of the \<open>d\<close> most recent buckets: those at \<open>index, index - 1, \<dots>, index - d + 1\<close>,
  each taken modulo the buffer length \<open>m\<close>.
\<close>

definition window_sum :: "u32 list \<Rightarrow> nat \<Rightarrow> nat \<Rightarrow> nat \<Rightarrow> nat" where
  "window_sum xs m index d =
     (\<Sum>t < d. unat (xs ! nat ((int index - int t) mod int m)))"

section \<open>Properties\<close>

subsection \<open>Basic facts\<close>

lemma length_fill [simp]: "length (fill xs v start stop) = length xs"
  by (simp add: fill_def)

lemma nth_fill:
  "k < length xs \<Longrightarrow> fill xs v start stop ! k = (if start \<le> k \<and> k < stop then v else xs ! k)"
  by (simp add: fill_def)

lemma fst_getIndex [simp]: "fst (getIndex now c) = now mod maxDuration c"
  by (simp add: getIndex_def Let_def)

lemma lastUpdatedAt_getIndex [simp]: "lastUpdatedAt (snd (getIndex now c)) = now"
  by (simp add: getIndex_def Let_def)

lemma maxDuration_getIndex [simp]: "maxDuration (snd (getIndex now c)) = maxDuration c"
  by (simp add: getIndex_def Let_def)

lemma length_getIndex [simp]: "length (data (snd (getIndex now c))) = length (data c)"
  by (simp add: getIndex_def Let_def)

lemma well_formed_getIndex: "well_formed c \<Longrightarrow> well_formed (snd (getIndex now c))"
  by (simp add: well_formed_def)

lemma fill_all: "fill xs v 0 (length xs) = replicate (length xs) v"
  by (rule nth_equalityI) (simp_all add: nth_fill)

subsection \<open>Buffer advance\<close>

lemma start_neq_stop:
  fixes t0 now m :: nat
  assumes "t0 < now" "now - t0 < m"
  shows "(t0 + 1) mod m \<noteq> (now + 1) mod m"
proof
  assume "(t0 + 1) mod m = (now + 1) mod m"
  then have eq: "(now + 1) mod m = (t0 + 1) mod m" by simp
  have le: "t0 + 1 \<le> now + 1" using assms(1) by simp
  have "m dvd (now + 1) - (t0 + 1)"
    using mod_eq_dvd_iff_nat [OF le, of m] eq by blast
  then have "m dvd now - t0" by simp
  moreover have "0 < now - t0" using assms(1) by simp
  ultimately show False using assms(2) by (meson nat_dvd_not_less)
qed

lemma getIndex_data_same:
  "well_formed c \<Longrightarrow> now = lastUpdatedAt c \<Longrightarrow> data (snd (getIndex now c)) = data c"
  by (simp add: getIndex_def Let_def well_formed_def)

lemma getIndex_data_one:
  "now = lastUpdatedAt c + 1 \<Longrightarrow>
   data (snd (getIndex now c)) = (data c)[now mod maxDuration c := 0]"
  by (simp add: getIndex_def Let_def)

lemma getIndex_data_all:
  assumes "well_formed c" "lastUpdatedAt c + maxDuration c \<le> now"
  shows "data (snd (getIndex now c)) = replicate (maxDuration c) 0"
proof (cases "now = lastUpdatedAt c + 1")
  case True
  with assms have m: "maxDuration c = 1" "length (data c) = 1"
    by (simp_all add: well_formed_def)
  then obtain x where "data c = [x]" by (cases "data c") auto
  with True m show ?thesis by (simp add: getIndex_def Let_def)
next
  case False
  have "int now - int (lastUpdatedAt c) \<noteq> 1" using False by linarith
  moreover have "int (maxDuration c) \<le> int now - int (lastUpdatedAt c)"
    using assms(2) by linarith
  moreover have "length (data c) = maxDuration c"
    using assms(1) by (simp add: well_formed_def)
  ultimately show ?thesis
    using fill_all [of "data c" 0] by (simp add: getIndex_def Let_def)
qed

lemma getIndex_data_range:
  assumes "well_formed c" "lastUpdatedAt c + 1 < now" "now < lastUpdatedAt c + maxDuration c"
    and "k < maxDuration c"
  shows "data (snd (getIndex now c)) ! k =
    (if k \<in> circular_range ((lastUpdatedAt c + 1) mod maxDuration c)
          ((now + 1) mod maxDuration c) (maxDuration c) then 0 else data c ! k)"
proof -
  let ?m = "maxDuration c"
  let ?start = "(lastUpdatedAt c + 1) mod ?m" and ?stop = "(now + 1) mod ?m"
  have len: "length (data c) = ?m" using assms(1) by (simp add: well_formed_def)
  have ne: "?start \<noteq> ?stop"
    using assms(2,3) by (intro start_neq_stop) simp_all
  have e: "int now - int (lastUpdatedAt c) \<noteq> 1" "\<not> int ?m \<le> int now - int (lastUpdatedAt c)"
    "int now - int (lastUpdatedAt c) > 1"
    using assms(2,3) by simp_all
  have d: "data (snd (getIndex now c)) =
    (if ?start < ?stop then fill (data c) 0 ?start ?stop
     else fill (fill (data c) 0 ?start ?m) 0 0 ?stop)"
    using e by (simp add: getIndex_def Let_def)
  show ?thesis
  proof (cases "?start < ?stop")
    case True
    then show ?thesis using d len assms(4) by (simp add: nth_fill circular_range_def)
  next
    case False
    with ne have "?stop < ?start" by simp
    then show ?thesis using d len assms(4) False
      by (auto simp add: nth_fill circular_range_def)
  qed
qed

text \<open>
  C1: on a well-formed counter read at a second \<open>now\<close> not before \<open>lastUpdatedAt\<close>,
  \<^verbatim>\<open>_getIndex\<close> returns \<open>now mod maxDuration\<close> and zeroes the buckets by the elapsed
  time: none when it is 0; only the bucket at \<open>now mod maxDuration\<close> when it is 1; all of
  them when it is at least \<open>maxDuration\<close>; and otherwise exactly the circular half-open
  range from \<open>(lastUpdatedAt + 1) mod maxDuration\<close> to \<open>(now + 1) mod maxDuration\<close>, every
  bucket outside it keeping its value.
\<close>

theorem getIndex_zeroes_by_elapsed:
  assumes "well_formed c" and "lastUpdatedAt c \<le> now"
  shows "fst (getIndex now c) = now mod maxDuration c \<and>
    length (data (snd (getIndex now c))) = maxDuration c \<and>
    (now - lastUpdatedAt c = 0 \<longrightarrow> data (snd (getIndex now c)) = data c) \<and>
    (now - lastUpdatedAt c = 1 \<longrightarrow>
       data (snd (getIndex now c)) = (data c)[now mod maxDuration c := 0]) \<and>
    (maxDuration c \<le> now - lastUpdatedAt c \<longrightarrow>
       data (snd (getIndex now c)) = replicate (maxDuration c) 0) \<and>
    (1 < now - lastUpdatedAt c \<and> now - lastUpdatedAt c < maxDuration c \<longrightarrow>
       (\<forall>k < maxDuration c. data (snd (getIndex now c)) ! k =
          (if k \<in> circular_range ((lastUpdatedAt c + 1) mod maxDuration c)
                 ((now + 1) mod maxDuration c) (maxDuration c)
           then 0 else data c ! k)))"
proof (intro conjI impI allI)
  show "fst (getIndex now c) = now mod maxDuration c" by simp
next
  show "length (data (snd (getIndex now c))) = maxDuration c"
    using assms(1) by (simp add: well_formed_def)
next
  assume "now - lastUpdatedAt c = 0"
  with assms show "data (snd (getIndex now c)) = data c"
    by (simp add: getIndex_data_same)
next
  assume "now - lastUpdatedAt c = 1"
  then have "now = lastUpdatedAt c + 1" by simp
  then show "data (snd (getIndex now c)) = (data c)[now mod maxDuration c := 0]"
    by (rule getIndex_data_one)
next
  assume "maxDuration c \<le> now - lastUpdatedAt c"
  with assms(2) have "lastUpdatedAt c + maxDuration c \<le> now" by simp
  with assms(1) show "data (snd (getIndex now c)) = replicate (maxDuration c) 0"
    by (rule getIndex_data_all)
next
  fix k
  assume e: "1 < now - lastUpdatedAt c \<and> now - lastUpdatedAt c < maxDuration c"
    and k: "k < maxDuration c"
  from e have "lastUpdatedAt c + 1 < now" "now < lastUpdatedAt c + maxDuration c"
    by linarith+
  with assms(1) show "data (snd (getIndex now c)) ! k =
      (if k \<in> circular_range ((lastUpdatedAt c + 1) mod maxDuration c)
             ((now + 1) mod maxDuration c) (maxDuration c)
       then 0 else data c ! k)"
    using k by (rule getIndex_data_range)
qed

theorem getIndex_zeroes_by_elapsed_witness:
  "well_formed \<lparr>maxDuration = 4, data = [5, 6, 7, 8], lastUpdatedAt = 10\<rparr> \<and>
   getIndex 10 \<lparr>maxDuration = 4, data = [5, 6, 7, 8], lastUpdatedAt = 10\<rparr> =
     (2, \<lparr>maxDuration = 4, data = [5, 6, 7, 8], lastUpdatedAt = 10\<rparr>) \<and>
   getIndex 11 \<lparr>maxDuration = 4, data = [5, 6, 7, 8], lastUpdatedAt = 10\<rparr> =
     (3, \<lparr>maxDuration = 4, data = [5, 6, 7, 0], lastUpdatedAt = 11\<rparr>) \<and>
   getIndex 12 \<lparr>maxDuration = 4, data = [5, 6, 7, 8], lastUpdatedAt = 10\<rparr> =
     (0, \<lparr>maxDuration = 4, data = [0, 6, 7, 0], lastUpdatedAt = 12\<rparr>) \<and>
   getIndex 14 \<lparr>maxDuration = 4, data = [5, 6, 7, 8], lastUpdatedAt = 12\<rparr> =
     (2, \<lparr>maxDuration = 4, data = [5, 0, 0, 8], lastUpdatedAt = 14\<rparr>) \<and>
   getIndex 14 \<lparr>maxDuration = 4, data = [5, 6, 7, 8], lastUpdatedAt = 10\<rparr> =
     (2, \<lparr>maxDuration = 4, data = [0, 0, 0, 0], lastUpdatedAt = 14\<rparr>)"
proof -
  let ?c = "\<lparr>maxDuration = 4, data = [5, 6, 7, 8], lastUpdatedAt = 10\<rparr> :: nat counter"
  let ?c' = "\<lparr>maxDuration = 4, data = [5, 6, 7, 8], lastUpdatedAt = 12\<rparr> :: nat counter"
  have wf: "well_formed ?c" and wf': "well_formed ?c'"
    by (simp_all add: well_formed_def)
  have le: "lastUpdatedAt ?c \<le> 10" "lastUpdatedAt ?c \<le> 11" "lastUpdatedAt ?c \<le> 12"
    "lastUpdatedAt ?c \<le> 14" "lastUpdatedAt ?c' \<le> 14"
    by simp_all
  show ?thesis
    using wf getIndex_zeroes_by_elapsed [OF wf le(1)] getIndex_zeroes_by_elapsed [OF wf le(2)]
      getIndex_zeroes_by_elapsed [OF wf le(3)] getIndex_zeroes_by_elapsed [OF wf le(4)]
      getIndex_zeroes_by_elapsed [OF wf' le(5)]
    by (simp add: getIndex_def fill_def)
qed

subsection \<open>Increment\<close>

lemma increment_index_in_range:
  "well_formed c \<Longrightarrow> now mod maxDuration c < length (data (snd (getIndex now c)))"
  by (simp add: well_formed_def)

lemma increment_unfold:
  "increment now c =
     (let c1 = snd (getIndex now c); index = now mod maxDuration c; v = data c1 ! index
      in if (data c1)[index := v + 1] ! index = 0
         then (False, c1\<lparr>data := (data c1)[index := v + 1, index := v]\<rparr>)
         else (True, c1\<lparr>data := (data c1)[index := v + 1]\<rparr>))"
  by (simp add: increment_def Let_def split_beta)

lemma increment_overflow:
  assumes "well_formed c" "data (snd (getIndex now c)) ! (now mod maxDuration c) = - 1"
  shows "increment now c = (False, snd (getIndex now c))"
proof -
  let ?c1 = "snd (getIndex now c)" and ?i = "now mod maxDuration c"
  have restored: "(data ?c1)[?i := data ?c1 ! ?i + 1, ?i := data ?c1 ! ?i] = data ?c1"
    by simp
  have "(data ?c1)[?i := data ?c1 ! ?i + 1] ! ?i = 0"
    using assms(2) increment_index_in_range [OF assms(1), of now] by simp
  then have "increment now c = (False, ?c1\<lparr>data := data ?c1\<rparr>)"
    unfolding increment_unfold Let_def restored by simp
  then show ?thesis by simp
qed

lemma increment_no_overflow:
  assumes "well_formed c" "data (snd (getIndex now c)) ! (now mod maxDuration c) \<noteq> - 1"
  shows "increment now c =
    (True, (snd (getIndex now c))\<lparr>data := (data (snd (getIndex now c)))
       [now mod maxDuration c := data (snd (getIndex now c)) ! (now mod maxDuration c) + 1]\<rparr>)"
proof -
  have "data (snd (getIndex now c)) ! (now mod maxDuration c) + 1 \<noteq> 0"
    using assms(2) by (simp add: eq_neg_iff_add_eq_0)
  then show ?thesis
    using increment_index_in_range [OF assms(1), of now]
    by (simp add: increment_unfold Let_def)
qed

lemma well_formed_increment: "well_formed c \<Longrightarrow> well_formed (snd (increment now c))"
  by (simp add: increment_unfold Let_def well_formed_def)

lemma max_u32: "(4294967295 :: u32) = - 1"
  by simp

lemma unat_succ_u32: "(v :: u32) \<noteq> - 1 \<Longrightarrow> unat (v + 1) = unat v + 1"
  using unatSuc [of v] by (simp add: eq_neg_iff_add_eq_0 add.commute)

text \<open>
  C4: let \<open>v\<close> be the value of the current bucket after the buffer advance. If \<open>v\<close> is
  4294967295, \<^verbatim>\<open>increment\<close> returns \<^verbatim>\<open>false\<close> and the bucket still holds 4294967295;
  if \<open>v\<close> is below 4294967295, it returns \<^verbatim>\<open>true\<close> and the bucket holds \<open>v + 1\<close>.
\<close>

theorem increment_overflow_policy:
  assumes "well_formed c"
  shows
    "(data (snd (getIndex now c)) ! (now mod maxDuration c) = 4294967295 \<longrightarrow>
        fst (increment now c) = False \<and>
        data (snd (increment now c)) ! (now mod maxDuration c) = 4294967295) \<and>
     (unat (data (snd (getIndex now c)) ! (now mod maxDuration c)) < 4294967295 \<longrightarrow>
        fst (increment now c) = True \<and>
        unat (data (snd (increment now c)) ! (now mod maxDuration c)) =
          unat (data (snd (getIndex now c)) ! (now mod maxDuration c)) + 1)"
proof (intro conjI impI)
  assume v: "data (snd (getIndex now c)) ! (now mod maxDuration c) = 4294967295"
  then have "increment now c = (False, snd (getIndex now c))"
    using assms by (intro increment_overflow) (simp_all only: max_u32)
  with v show "fst (increment now c) = False"
    and "data (snd (increment now c)) ! (now mod maxDuration c) = 4294967295"
    by simp_all
next
  assume "unat (data (snd (getIndex now c)) ! (now mod maxDuration c)) < 4294967295"
  then have "data (snd (getIndex now c)) ! (now mod maxDuration c) \<noteq> 4294967295"
    by auto
  then have ne: "data (snd (getIndex now c)) ! (now mod maxDuration c) \<noteq> - 1"
    unfolding max_u32 .
  note inc = increment_no_overflow [OF assms ne]
  show "fst (increment now c) = True" by (simp add: inc)
  show "unat (data (snd (increment now c)) ! (now mod maxDuration c)) =
          unat (data (snd (getIndex now c)) ! (now mod maxDuration c)) + 1"
    using increment_index_in_range [OF assms, of now] unat_succ_u32 [OF ne]
    by (simp add: inc)
qed

theorem increment_overflow_policy_witness:
  "well_formed \<lparr>maxDuration = 4, data = [1, 3, 4294967295, 7], lastUpdatedAt = 10\<rparr> \<and>
   increment 10 \<lparr>maxDuration = 4, data = [1, 3, 4294967295, 7], lastUpdatedAt = 10\<rparr> =
     (False, \<lparr>maxDuration = 4, data = [1, 3, 4294967295, 7], lastUpdatedAt = 10\<rparr>) \<and>
   well_formed \<lparr>maxDuration = 4, data = [1, 3, 41, 7], lastUpdatedAt = 10\<rparr> \<and>
   increment 10 \<lparr>maxDuration = 4, data = [1, 3, 41, 7], lastUpdatedAt = 10\<rparr> =
     (True, \<lparr>maxDuration = 4, data = [1, 3, 42, 7], lastUpdatedAt = 10\<rparr>)"
proof -
  let ?c = "\<lparr>maxDuration = 4, data = [1, 3, 4294967295, 7], lastUpdatedAt = 10\<rparr> :: nat counter"
  let ?c' = "\<lparr>maxDuration = 4, data = [1, 3, 41, 7], lastUpdatedAt = 10\<rparr> :: nat counter"
  have wf: "well_formed ?c" and wf': "well_formed ?c'"
    by (simp_all add: well_formed_def)
  show ?thesis
    using wf wf' increment_overflow_policy [OF wf, of 10] increment_overflow_policy [OF wf', of 10]
    by (simp add: increment_def getIndex_def)
qed

text \<open>
  C7: when \<^verbatim>\<open>increment\<close> returns \<^verbatim>\<open>false\<close>, the instance it leaves is the one the
  buffer advance leaves: \<^verbatim>\<open>lastUpdatedAt\<close> is \<open>now\<close>, the buckets are those after the
  zeroing step, and no other bucket value has changed. A failure happens only on a bucket
  holding 4294967295.
\<close>

theorem increment_failure_frame:
  assumes "well_formed c" and "fst (increment now c) = False"
  shows "snd (increment now c) = snd (getIndex now c) \<and>
    lastUpdatedAt (snd (increment now c)) = now \<and>
    data (snd (getIndex now c)) ! (now mod maxDuration c) = 4294967295"
proof (cases "data (snd (getIndex now c)) ! (now mod maxDuration c) = - 1")
  case True
  from increment_overflow [OF assms(1) True] True show ?thesis by simp
next
  case False
  from increment_no_overflow [OF assms(1) False] assms(2) show ?thesis by simp
qed

theorem increment_failure_frame_witness:
  "well_formed \<lparr>maxDuration = 4, data = [1, 3, 4294967295, 7], lastUpdatedAt = 10\<rparr> \<and>
   fst (increment 6 \<lparr>maxDuration = 4, data = [1, 3, 4294967295, 7], lastUpdatedAt = 10\<rparr>) = False \<and>
   snd (increment 6 \<lparr>maxDuration = 4, data = [1, 3, 4294967295, 7], lastUpdatedAt = 10\<rparr>) =
     \<lparr>maxDuration = 4, data = [1, 3, 4294967295, 7], lastUpdatedAt = 6\<rparr>"
proof -
  let ?c = "\<lparr>maxDuration = 4, data = [1, 3, 4294967295, 7], lastUpdatedAt = 10\<rparr> :: nat counter"
  have wf: "well_formed ?c"
    by (simp add: well_formed_def)
  have failed: "fst (increment 6 ?c) = False"
    by (simp add: increment_def getIndex_def)
  show ?thesis
    using wf failed increment_failure_frame [OF wf failed]
    by (simp add: getIndex_def)
qed

lemma filter_single_update:
  assumes "i < n" and "a \<noteq> b"
  shows "filter (\<lambda>x. x = a) ((replicate n b)[i := a]) = [a]"
    and "length (filter (\<lambda>x. x = b) ((replicate n b)[i := a])) = n - 1"
proof -
  have split: "(replicate n b)[i := a] = replicate i b @ a # replicate (n - Suc i) b"
    using assms(1) by (simp add: upd_conv_take_nth_drop min_def)
  show "filter (\<lambda>x. x = a) ((replicate n b)[i := a]) = [a]"
    using assms(2) by (simp add: split)
  show "length (filter (\<lambda>x. x = b) ((replicate n b)[i := a])) = n - 1"
    using assms by (simp add: split)
qed

text \<open>
  C8: on a counter whose buckets all hold 1 and that has not been accessed for at least
  \<open>maxDuration\<close> seconds, \<^verbatim>\<open>increment\<close> succeeds and leaves the bucket at
  \<open>now mod maxDuration\<close> at 1 and every other bucket at 0: exactly one bucket holds 1 and
  \<open>maxDuration - 1\<close> buckets hold 0.
\<close>

theorem increment_after_inactivity:
  assumes "well_formed c" and "\<forall>x \<in> set (data c). x = 1"
    and "maxDuration c \<le> now - lastUpdatedAt c"
  shows "fst (increment now c) = True \<and>
    data (snd (increment now c)) = (replicate (maxDuration c) 0)[now mod maxDuration c := 1] \<and>
    filter (\<lambda>x. x = 1) (data (snd (increment now c))) = [1] \<and>
    length (filter (\<lambda>x. x = 0) (data (snd (increment now c)))) = maxDuration c - 1"
proof -
  let ?m = "maxDuration c" and ?i = "now mod maxDuration c"
  have m: "0 < ?m" using assms(1) by (simp add: well_formed_def)
  then have i: "?i < ?m" by simp
  have "lastUpdatedAt c + ?m \<le> now" using assms(3) m by linarith
  then have zero: "data (snd (getIndex now c)) = replicate ?m 0"
    using assms(1) by (intro getIndex_data_all)
  then have "data (snd (getIndex now c)) ! ?i \<noteq> - 1" using i by simp
  from increment_no_overflow [OF assms(1) this]
  have inc: "increment now c = (True, (snd (getIndex now c))\<lparr>data := (replicate ?m 0)[?i := 1]\<rparr>)"
    using i by (simp add: zero)
  show ?thesis
    using filter_single_update [OF i, of "1 :: u32" 0] by (simp add: inc)
qed

theorem increment_after_inactivity_witness:
  "well_formed \<lparr>maxDuration = 4, data = [1, 1, 1, 1], lastUpdatedAt = 10\<rparr> \<and>
   set [1, 1, 1, 1 :: u32] = {1} \<and> (4 :: nat) \<le> 15 - 10 \<and>
   increment 15 \<lparr>maxDuration = 4, data = [1, 1, 1, 1], lastUpdatedAt = 10\<rparr> =
     (True, \<lparr>maxDuration = 4, data = [0, 0, 0, 1], lastUpdatedAt = 15\<rparr>)"
proof -
  let ?c = "\<lparr>maxDuration = 4, data = [1, 1, 1, 1], lastUpdatedAt = 10\<rparr> :: nat counter"
  have wf: "well_formed ?c"
    by (simp add: well_formed_def)
  have ones: "\<forall>x \<in> set (data ?c). x = 1" by simp
  have idle: "maxDuration ?c \<le> 15 - lastUpdatedAt ?c" by simp
  show ?thesis
    using wf increment_after_inactivity [OF wf ones idle]
    by (simp add: increment_def getIndex_def fill_def)
qed

subsection \<open>Windowed count\<close>

declare sumLoop.simps [simp del]

lemma element_of_nat:
  "k < length xs \<Longrightarrow> element xs (of_nat k) = Some (unat (xs ! k))"
  by (simp add: element_def)

lemma sumLoop_done: "i < 0 \<Longrightarrow> sumLoop xs m index i count = count"
  by (simp add: sumLoop.simps)

lemma wrapped_index:
  fixes index j m :: nat
  assumes "index < m" "j < m"
  shows "(if rat_of_nat index - rat_of_nat j < 0
          then rat_of_nat index - rat_of_nat j + rat_of_nat m
          else rat_of_nat index - rat_of_nat j) =
         rat_of_nat (nat ((int index - int j) mod int m))"
    and "nat ((int index - int j) mod int m) < m"
proof -
  have m: "0 < int m" using assms(1) by simp
  show "nat ((int index - int j) mod int m) < m"
    using m by (simp add: nat_less_iff)
  show "(if rat_of_nat index - rat_of_nat j < 0
          then rat_of_nat index - rat_of_nat j + rat_of_nat m
          else rat_of_nat index - rat_of_nat j) =
         rat_of_nat (nat ((int index - int j) mod int m))"
  proof (cases "index < j")
    case True
    have "(int index - int j) mod int m = (int index - int j + int m) mod int m"
      by simp
    also have "\<dots> = int index - int j + int m"
      using True assms by (intro mod_pos_pos_trivial) linarith+
    finally have "(int index - int j) mod int m = int index - int j + int m" .
    moreover have "nat (int index - int j + int m) = index + m - j"
      using True assms by linarith
    moreover have "(of_nat (index + m - j) :: rat) = of_nat index - of_nat j + of_nat m"
      using True assms by (simp add: of_nat_diff)
    ultimately show ?thesis using True by simp
  next
    case False
    then have "(int index - int j) mod int m = int index - int j"
      using assms by simp
    moreover have "nat (int index - int j) = index - j"
      using False by linarith
    moreover have "(of_nat (index - j) :: rat) = of_nat index - of_nat j"
      using False by (simp add: of_nat_diff)
    ultimately show ?thesis using False by simp
  qed
qed

lemma sumLoop_step:
  assumes "length xs = m" "index < m" "j < m"
  shows "sumLoop xs m index (of_nat j) (Some a) =
    sumLoop xs m index (of_nat j - 1) (Some (a + unat (xs ! nat ((int index - int j) mod int m))))"
proof -
  let ?k = "nat ((int index - int j) mod int m)"
  have nonneg: "(0 :: rat) \<le> of_nat j" by simp
  have "sumLoop xs m index (of_nat j) (Some a) =
      sumLoop xs m index (of_nat j - 1) (add_element (Some a) (element xs
        (if rat_of_nat index - rat_of_nat j < 0
         then rat_of_nat index - rat_of_nat j + rat_of_nat m
         else rat_of_nat index - rat_of_nat j)))"
    by (subst sumLoop.simps) (simp only: Let_def nonneg if_True)
  also have "\<dots> = sumLoop xs m index (of_nat j - 1) (add_element (Some a) (element xs (of_nat ?k)))"
    by (simp only: wrapped_index(1) [OF assms(2,3)])
  also have "element xs (of_nat ?k) = Some (unat (xs ! ?k))"
    using wrapped_index(2) [OF assms(2,3)] assms(1) by (intro element_of_nat) simp
  finally show ?thesis by (simp add: add_element_def)
qed

lemma sumLoop_of_nat:
  assumes "length xs = m" "index < m" "j < m"
  shows "sumLoop xs m index (of_nat j) (Some a) =
    Some (a + (\<Sum>t \<le> j. unat (xs ! nat ((int index - int t) mod int m))))"
  using assms(3)
proof (induction j arbitrary: a)
  case 0
  then show ?case
    using sumLoop_step [OF assms(1,2), of 0 a] by (simp add: sumLoop_done)
next
  case (Suc j)
  then have "j < m" by simp
  from sumLoop_step [OF assms(1,2) Suc.prems, of a] Suc.IH [OF this]
  show ?case by (simp add: add.commute add.left_commute)
qed

lemma sumLoop_window:
  assumes "length xs = m" "index < m" "0 < d" "d \<le> m"
  shows "sumLoop xs m index (of_nat d - 1) (Some 0) = Some (window_sum xs m index d)"
proof -
  obtain j where d: "d = Suc j" using assms(3) by (cases d) auto
  then have "j < m" using assms(4) by simp
  from sumLoop_of_nat [OF assms(1,2) this, of 0] show ?thesis
    by (simp add: d window_sum_def lessThan_Suc_atMost)
qed

lemma getCount_unfold:
  "getCount now duration c =
     (case sumLoop (data (snd (getIndex now c))) (maxDuration c) (now mod maxDuration c)
             (clampDuration duration (maxDuration c) - 1) (Some 0) of
        None \<Rightarrow> - 1
      | Some n \<Rightarrow> if n \<le> MAX_SAFE_INTEGER then int n else - 1,
      snd (getIndex now c))"
  by (simp add: getCount_def split_beta Let_def)

lemma well_formed_getCount: "well_formed c \<Longrightarrow> well_formed (snd (getCount now duration c))"
  by (simp add: getCount_unfold well_formed_def)

lemma getCount_clamped:
  assumes "well_formed c" and "clampDuration duration (maxDuration c) = of_nat d"
    and "0 < d" and "d \<le> maxDuration c"
  shows "getCount now duration c =
    (if window_sum (data (snd (getIndex now c))) (maxDuration c) (now mod maxDuration c) d
          \<le> MAX_SAFE_INTEGER
     then int (window_sum (data (snd (getIndex now c))) (maxDuration c) (now mod maxDuration c) d)
     else - 1,
     snd (getIndex now c))"
proof -
  have len: "length (data (snd (getIndex now c))) = maxDuration c"
    and i: "now mod maxDuration c < maxDuration c"
    using assms(1) by (simp_all add: well_formed_def)
  show ?thesis
    unfolding getCount_unfold assms(2) sumLoop_window [OF len i assms(3,4)] by simp
qed

lemma clampDuration_of_int:
  assumes "0 < m"
  shows "clampDuration (Some (Num (of_int d))) m = of_nat (nat (max 1 (min d (int m))))"
proof -
  have "(rat_of_int d > of_nat m) = (d > int m)"
    by (metis of_int_less_iff of_int_of_nat_eq)
  moreover have "(rat_of_int d < 1) = (d < 1)"
    by simp
  ultimately show ?thesis
    using assms by (auto simp add: clampDuration_def max_def min_def)
qed

lemma clampDuration_absent:
  "clampDuration None m = of_nat m" "clampDuration (Some NaN) m = of_nat m"
  by (simp_all add: clampDuration_def)

lemma clampDuration_above: "d > of_nat m \<Longrightarrow> clampDuration (Some (Num d)) m = of_nat m"
  by (simp add: clampDuration_def)

lemma clampDuration_below:
  "0 < m \<Longrightarrow> d < 1 \<Longrightarrow> clampDuration (Some (Num d)) m = 1"
  by (auto simp add: clampDuration_def)

lemma clampDuration_maxDuration:
  "0 < m \<Longrightarrow> clampDuration (Some (Num (of_nat m))) m = of_nat m"
  by (auto simp add: clampDuration_def)

lemma clampDuration_one: "0 < m \<Longrightarrow> clampDuration (Some (Num 1)) m = 1"
  by (auto simp add: clampDuration_def)

lemma getCount_cong:
  "clampDuration d1 (maxDuration c) = clampDuration d2 (maxDuration c) \<Longrightarrow>
   getCount now d1 c = getCount now d2 c"
  by (simp add: getCount_unfold)

lemma window_sum_eval:
  "window_sum xs m index 0 = 0"
  "window_sum xs m index (Suc d) =
     window_sum xs m index d + unat (xs ! nat ((int index - int d) mod int m))"
  by (simp_all add: window_sum_def)

lemma window_sum_numeral:
  "window_sum xs m index (numeral k) =
     window_sum xs m index (pred_numeral k) +
     unat (xs ! nat ((int index - int (pred_numeral k)) mod int m))"
  by (simp add: numeral_eq_Suc window_sum_eval)

lemma window_sum_replicate:
  assumes "0 < m"
  shows "window_sum (replicate m v) m index d = d * unat v"
proof -
  have "nat ((int index - int t) mod int m) < m" for t
    using assms by (simp add: nat_less_iff)
  then show ?thesis
    by (simp add: window_sum_def)
qed

lemma window_sum_le: "window_sum xs m index d \<le> d * 4294967295"
proof -
  have "unat x \<le> 4294967295" for x :: u32
    using unsigned_less [of x, where ?'a = nat] by simp
  then have "window_sum xs m index d \<le> of_nat (card {..<d}) * 4294967295"
    unfolding window_sum_def by (intro sum_bounded_above) simp
  then show ?thesis by simp
qed

lemma window_sum_mono: "d1 \<le> d2 \<Longrightarrow> window_sum xs m index d1 \<le> window_sum xs m index d2"
  unfolding window_sum_def by (intro sum_mono2) auto

lemma window_sum_safe:
  assumes "d \<le> m" and "m \<le> 2097152"
  shows "window_sum xs m index d \<le> MAX_SAFE_INTEGER"
proof -
  have "window_sum xs m index d \<le> d * 4294967295" by (rule window_sum_le)
  also have "\<dots> \<le> 2097152 * 4294967295" using assms by (intro mult_le_mono1) simp
  also have "\<dots> \<le> MAX_SAFE_INTEGER" by (simp add: MAX_SAFE_INTEGER_def)
  finally show ?thesis .
qed

lemma getCount_example:
  "getCount 10 (Some (Num 4)) \<lparr>maxDuration = 4, data = [5, 6, 7, 8], lastUpdatedAt = 10\<rparr> =
     (26, \<lparr>maxDuration = 4, data = [5, 6, 7, 8], lastUpdatedAt = 10\<rparr>)"
  "getCount 10 (Some (Num 1)) \<lparr>maxDuration = 4, data = [5, 6, 7, 8], lastUpdatedAt = 10\<rparr> =
     (7, \<lparr>maxDuration = 4, data = [5, 6, 7, 8], lastUpdatedAt = 10\<rparr>)"
  by (simp_all add: getCount_unfold getIndex_def clampDuration_def sumLoop.simps element_def
      add_element_def MAX_SAFE_INTEGER_def)

text \<open>
  C5: for an integer duration \<open>d\<close> with \<open>1 \<le> d \<le> maxDuration\<close>, \<^verbatim>\<open>getCount(d)\<close>
  returns the sum of the buckets at the \<open>d\<close> most recent circular indices
  \<open>index, index - 1, \<dots>, index - d + 1\<close> (modulo \<open>maxDuration\<close>) of the advanced buffer
  when that sum is at most \<open>2 ^ 53 - 1\<close>, and \<open>-1\<close> when the sum is larger.
\<close>

theorem getCount_window_sum:
  assumes "well_formed c" and "1 \<le> d" and "d \<le> int (maxDuration c)"
  shows "fst (getCount now (Some (Num (of_int d))) c) =
    (if window_sum (data (snd (getIndex now c))) (maxDuration c) (fst (getIndex now c)) (nat d)
          \<le> 2 ^ 53 - 1
     then int (window_sum (data (snd (getIndex now c))) (maxDuration c)
                 (fst (getIndex now c)) (nat d))
     else - 1)"
proof -
  have m: "0 < maxDuration c" using assms(1) by (simp add: well_formed_def)
  have "max 1 (min d (int (maxDuration c))) = d" using assms(2,3) by simp
  then have cl: "clampDuration (Some (Num (of_int d))) (maxDuration c) = of_nat (nat d)"
    using clampDuration_of_int [OF m, of d] by simp
  have "0 < nat d" "nat d \<le> maxDuration c" using assms(2,3) by simp_all
  from getCount_clamped [OF assms(1) cl this] show ?thesis
    by (simp add: MAX_SAFE_INTEGER_def)
qed

theorem getCount_window_sum_witness:
  "well_formed \<lparr>maxDuration = 4, data = [5, 6, 7, 8], lastUpdatedAt = 10\<rparr> \<and>
   (1 :: int) \<le> 3 \<and> (3 :: int) \<le> int 4 \<and>
   fst (getCount 12 (Some (Num 3)) \<lparr>maxDuration = 4, data = [5, 6, 7, 8], lastUpdatedAt = 10\<rparr>) = 7 \<and>
   fst (getCount 10 (Some (Num 3)) \<lparr>maxDuration = 4, data = [5, 6, 7, 8], lastUpdatedAt = 10\<rparr>) = 18 \<and>
   well_formed
     \<lparr>maxDuration = 2097153, data = replicate 2097153 4294967295, lastUpdatedAt = 0\<rparr> \<and>
   fst (getCount 0 (Some (Num 2097153))
     \<lparr>maxDuration = 2097153, data = replicate 2097153 4294967295, lastUpdatedAt = 0\<rparr>) = - 1"
proof -
  let ?c = "\<lparr>maxDuration = 4, data = [5, 6, 7, 8], lastUpdatedAt = 10\<rparr> :: nat counter"
  let ?big = "\<lparr>maxDuration = 2097153, data = replicate 2097153 4294967295,
    lastUpdatedAt = 0\<rparr> :: nat counter"
  have wf: "well_formed ?c" and wf_big: "well_formed ?big"
    by (simp_all add: well_formed_def)
  have d: "(1 :: int) \<le> 3" "3 \<le> int (maxDuration ?c)" by simp_all
  have d_big: "(1 :: int) \<le> 2097153" "2097153 \<le> int (maxDuration ?big)" by simp_all
  have small: "fst (getCount 12 (Some (Num 3)) ?c) = 7 \<and> fst (getCount 10 (Some (Num 3)) ?c) = 18"
    using getCount_window_sum [OF wf d, of 12] getCount_window_sum [OF wf d, of 10]
    by (simp add: getIndex_def fill_def window_sum_eval window_sum_numeral)
  have same: "snd (getIndex 0 ?big) = ?big"
    by (simp add: getIndex_def)
  have "fst (getCount 0 (Some (Num 2097153)) ?big) = - 1"
    using getCount_window_sum [OF wf_big d_big, of 0]
    unfolding same by (simp add: window_sum_replicate)
  with wf wf_big small show ?thesis by simp
qed

text \<open>
  C6: \<^verbatim>\<open>getCount\<close> with an absent or not-a-number duration, or with a duration above
  \<open>maxDuration\<close>, returns what \<^verbatim>\<open>getCount(maxDuration)\<close> returns; with a duration below
  1 it returns what \<^verbatim>\<open>getCount(1)\<close> returns. Both the count and the instance left
  behind are equal.
\<close>

theorem getCount_clamps_duration:
  assumes "well_formed c"
  shows "getCount now None c = getCount now (Some (Num (of_nat (maxDuration c)))) c \<and>
    getCount now (Some NaN) c = getCount now (Some (Num (of_nat (maxDuration c)))) c \<and>
    (d > of_nat (maxDuration c) \<longrightarrow>
       getCount now (Some (Num d)) c = getCount now (Some (Num (of_nat (maxDuration c)))) c) \<and>
    (d < 1 \<longrightarrow> getCount now (Some (Num d)) c = getCount now (Some (Num 1)) c)"
proof -
  have m: "0 < maxDuration c" using assms by (simp add: well_formed_def)
  show ?thesis
    by (intro conjI impI getCount_cong)
      (simp_all add: clampDuration_absent clampDuration_above clampDuration_below [OF m]
        clampDuration_maxDuration [OF m] clampDuration_one [OF m])
qed

theorem getCount_clamps_duration_witness:
  "well_formed \<lparr>maxDuration = 4, data = [5, 6, 7, 8], lastUpdatedAt = 10\<rparr> \<and>
   (100 :: rat) > of_nat 4 \<and> (0 :: rat) < 1 \<and>
   getCount 10 None \<lparr>maxDuration = 4, data = [5, 6, 7, 8], lastUpdatedAt = 10\<rparr> =
     (26, \<lparr>maxDuration = 4, data = [5, 6, 7, 8], lastUpdatedAt = 10\<rparr>) \<and>
   getCount 10 (Some NaN) \<lparr>maxDuration = 4, data = [5, 6, 7, 8], lastUpdatedAt = 10\<rparr> =
     (26, \<lparr>maxDuration = 4, data = [5, 6, 7, 8], lastUpdatedAt = 10\<rparr>) \<and>
   getCount 10 (Some (Num 100)) \<lparr>maxDuration = 4, data = [5, 6, 7, 8], lastUpdatedAt = 10\<rparr> =
     (26, \<lparr>maxDuration = 4, data = [5, 6, 7, 8], lastUpdatedAt = 10\<rparr>) \<and>
   getCount 10 (Some (Num 0)) \<lparr>maxDuration = 4, data = [5, 6, 7, 8], lastUpdatedAt = 10\<rparr> =
     (7, \<lparr>maxDuration = 4, data = [5, 6, 7, 8], lastUpdatedAt = 10\<rparr>)"
proof -
  let ?c = "\<lparr>maxDuration = 4, data = [5, 6, 7, 8], lastUpdatedAt = 10\<rparr> :: nat counter"
  have wf: "well_formed ?c"
    by (simp add: well_formed_def)
  show ?thesis
    using wf getCount_clamps_duration [OF wf, of 10 100] getCount_clamps_duration [OF wf, of 10 0]
    by (simp add: getCount_example)
qed

text \<open>
  C9: when \<open>maxDuration\<close> is at most 2097152, \<^verbatim>\<open>getCount\<close> with any integer duration
  (or none) returns the window sum of the clamped duration: the sum cannot exceed
  \<open>2 ^ 53 - 1\<close>, the result is non-negative and it is never the sentinel \<open>-1\<close>.
\<close>

theorem getCount_never_overflows:
  assumes "well_formed c" and "maxDuration c \<le> 2097152"
  shows "fst (getCount now (Some (Num (of_int d))) c) =
      int (window_sum (data (snd (getIndex now c))) (maxDuration c) (fst (getIndex now c))
             (nat (max 1 (min d (int (maxDuration c)))))) \<and>
    fst (getCount now None c) =
      int (window_sum (data (snd (getIndex now c))) (maxDuration c) (fst (getIndex now c))
             (maxDuration c)) \<and>
    0 \<le> fst (getCount now (Some (Num (of_int d))) c) \<and> 0 \<le> fst (getCount now None c) \<and>
    fst (getCount now (Some (Num (of_int d))) c) \<noteq> - 1 \<and> fst (getCount now None c) \<noteq> - 1"
proof -
  let ?m = "maxDuration c"
  let ?d = "nat (max 1 (min d (int ?m)))"
  have m: "0 < ?m" using assms(1) by (simp add: well_formed_def)
  have d: "0 < ?d" "?d \<le> ?m" using m by simp_all
  have "getCount now (Some (Num (of_int d))) c =
      (int (window_sum (data (snd (getIndex now c))) ?m (now mod ?m) ?d), snd (getIndex now c))"
    using getCount_clamped [OF assms(1) clampDuration_of_int [OF m] d]
      window_sum_safe [OF d(2) assms(2)] by simp
  moreover have "getCount now None c =
      (int (window_sum (data (snd (getIndex now c))) ?m (now mod ?m) ?m), snd (getIndex now c))"
    using getCount_clamped [OF assms(1) clampDuration_absent(1) m order_refl]
      window_sum_safe [OF order_refl assms(2)] by simp
  ultimately show ?thesis by simp
qed

theorem getCount_never_overflows_witness:
  "well_formed \<lparr>maxDuration = 4, data = [5, 6, 7, 4294967295], lastUpdatedAt = 11\<rparr> \<and>
   (4 :: nat) \<le> 2097152 \<and>
   fst (getCount 11 (Some (Num 2)) \<lparr>maxDuration = 4, data = [5, 6, 7, 4294967295], lastUpdatedAt = 11\<rparr>)
     = 4294967302 \<and>
   fst (getCount 11 None \<lparr>maxDuration = 4, data = [5, 6, 7, 4294967295], lastUpdatedAt = 11\<rparr>)
     = 4294967313"
proof -
  let ?c = "\<lparr>maxDuration = 4, data = [5, 6, 7, 4294967295], lastUpdatedAt = 11\<rparr> :: nat counter"
  have wf: "well_formed ?c"
    by (simp add: well_formed_def)
  have small: "maxDuration ?c \<le> 2097152" by simp
  show ?thesis
    using wf getCount_never_overflows [OF wf small, of 11 2]
    by (simp add: getIndex_def window_sum_eval window_sum_numeral)
qed

text \<open>
  C10: for integer durations \<open>1 \<le> d1 \<le> d2 \<le> maxDuration\<close>, on the same instance and
  clock reading, \<^verbatim>\<open>getCount(d1)\<close> is at most \<^verbatim>\<open>getCount(d2)\<close> whenever neither is
  the sentinel \<open>-1\<close>.
\<close>

theorem getCount_monotone:
  assumes "well_formed c" and "1 \<le> d1" and "d1 \<le> d2" and "d2 \<le> int (maxDuration c)"
    and "fst (getCount now (Some (Num (of_int d1))) c) \<noteq> - 1"
    and "fst (getCount now (Some (Num (of_int d2))) c) \<noteq> - 1"
  shows "fst (getCount now (Some (Num (of_int d1))) c) \<le>
    fst (getCount now (Some (Num (of_int d2))) c)"
proof -
  let ?m = "maxDuration c"
  let ?w = "window_sum (data (snd (getIndex now c))) ?m (now mod ?m)"
  have m: "0 < ?m" using assms(1) by (simp add: well_formed_def)
  have c1: "clampDuration (Some (Num (of_int d1))) ?m = of_nat (nat d1)"
    and c2: "clampDuration (Some (Num (of_int d2))) ?m = of_nat (nat d2)"
    using clampDuration_of_int [OF m, of d1] clampDuration_of_int [OF m, of d2] assms(2-4)
    by simp_all
  have r1: "0 < nat d1" "nat d1 \<le> ?m" and r2: "0 < nat d2" "nat d2 \<le> ?m"
    using assms(2-4) by simp_all
  have g1: "fst (getCount now (Some (Num (of_int d1))) c) =
      (if ?w (nat d1) \<le> MAX_SAFE_INTEGER then int (?w (nat d1)) else - 1)"
    using getCount_clamped [OF assms(1) c1 r1] by simp
  have g2: "fst (getCount now (Some (Num (of_int d2))) c) =
      (if ?w (nat d2) \<le> MAX_SAFE_INTEGER then int (?w (nat d2)) else - 1)"
    using getCount_clamped [OF assms(1) c2 r2] by simp
  have "?w (nat d1) \<le> ?w (nat d2)"
    using assms(3) by (intro window_sum_mono) simp
  then show ?thesis
    using assms(5,6) unfolding g1 g2 by (simp split: if_splits)
qed

theorem getCount_monotone_witness:
  "well_formed \<lparr>maxDuration = 4, data = [5, 6, 7, 8], lastUpdatedAt = 10\<rparr> \<and>
   (1 :: int) \<le> 2 \<and> (2 :: int) \<le> 3 \<and> (3 :: int) \<le> int 4 \<and>
   fst (getCount 10 (Some (Num 2)) \<lparr>maxDuration = 4, data = [5, 6, 7, 8], lastUpdatedAt = 10\<rparr>) = 13 \<and>
   fst (getCount 10 (Some (Num 3)) \<lparr>maxDuration = 4, data = [5, 6, 7, 8], lastUpdatedAt = 10\<rparr>) = 18 \<and>
   fst (getCount 10 (Some (Num 2)) \<lparr>maxDuration = 4, data = [5, 6, 7, 8], lastUpdatedAt = 10\<rparr>) \<le>
   fst (getCount 10 (Some (Num 3)) \<lparr>maxDuration = 4, data = [5, 6, 7, 8], lastUpdatedAt = 10\<rparr>)"
proof -
  let ?c = "\<lparr>maxDuration = 4, data = [5, 6, 7, 8], lastUpdatedAt = 10\<rparr> :: nat counter"
  have wf: "well_formed ?c"
    by (simp add: well_formed_def)
  have d: "(1 :: int) \<le> 2" "(2 :: int) \<le> 3" "3 \<le> int (maxDuration ?c)" by simp_all
  have v: "fst (getCount 10 (Some (Num 2)) ?c) = 13" "fst (getCount 10 (Some (Num 3)) ?c) = 18"
    by (simp_all add: getCount_unfold getIndex_def clampDuration_def sumLoop.simps element_def
        add_element_def MAX_SAFE_INTEGER_def)
  have ok: "fst (getCount 10 (Some (Num (of_int 2))) ?c) \<noteq> - 1"
    "fst (getCount 10 (Some (Num (of_int 3))) ?c) \<noteq> - 1"
    using v by simp_all
  show ?thesis
    using wf v getCount_monotone [OF wf d ok] by simp
qed

subsection \<open>Construction\<close>

lemma ToIndex_Num:
  "ToIndex (Num r) = (if r \<le> - 1 \<or> 2 ^ 53 \<le> r then Inl RangeError else Inr (nat \<lfloor>r\<rfloor>))"
proof -
  have neg: "\<lceil>r\<rceil> < 0 \<longleftrightarrow> r \<le> - 1"
    by (simp add: ceiling_less_iff)
  have big: "\<lfloor>r\<rfloor> > 2 ^ 53 - 1 \<longleftrightarrow> 2 ^ 53 \<le> r"
  proof -
    have "\<lfloor>r\<rfloor> > 2 ^ 53 - 1 \<longleftrightarrow> (2 ^ 53 :: int) \<le> \<lfloor>r\<rfloor>" by linarith
    also have "\<dots> \<longleftrightarrow> of_int (2 ^ 53) \<le> r" by (rule le_floor_iff)
    finally show ?thesis by simp
  qed
  show ?thesis
  proof (cases "r < 0")
    case True
    then have "\<not> 2 ^ 53 \<le> r" by simp
    moreover have "\<lceil>r\<rceil> \<le> 0" using True by (simp add: ceiling_le_iff)
    moreover have "\<lfloor>r\<rfloor> < 0" using True by (simp add: floor_less_iff)
    ultimately show ?thesis
      using True neg by (auto simp add: ToIndex_def Let_def)
  next
    case False
    then have "\<not> r \<le> - 1" "0 \<le> \<lfloor>r\<rfloor>" by simp_all
    then show ?thesis
      using False big by (auto simp add: ToIndex_def Let_def)
  qed
qed

text \<open>
  Called with a positive integer that the host can allocate, the constructor returns an
  instance with that many zero buckets: a well-formed counter.
\<close>

lemma create_positive_integer:
  assumes "0 < n" and "n \<le> limit" and "n < 2 ^ 53"
  shows "create limit now (Some (Num (of_nat n))) =
    Inr \<lparr>maxDuration = Num (of_nat n), data = replicate n 0, lastUpdatedAt = now\<rparr>"
proof -
  have "\<not> rat_of_nat n \<le> - 1"
    using of_nat_0_le_iff [of n, where ?'a = rat] by linarith
  moreover have "rat_of_nat n < 2 ^ 53"
    using assms(3) by (metis of_nat_less_iff of_nat_numeral of_nat_power)
  ultimately have "ToIndex (Num (of_nat n)) = Inr n"
    by (simp add: ToIndex_Num)
  then show ?thesis
    using assms(2) fill_all [of "replicate n (0 :: u32)" 0]
    by (simp add: create_def constructor_def Uint32Array_def)
qed

text \<open>
  C2 fails as stated: the constructor validates nothing, and the only failure is the
  \<^verbatim>\<open>RangeError\<close> of the typed-array allocation. \<^verbatim>\<open>create(0)\<close> returns an instance
  with no bucket, and \<^verbatim>\<open>create(1.5)\<close> an instance with one bucket whose
  \<^verbatim>\<open>maxDuration\<close> is 1.5.
\<close>

theorem create_accepts_counterexample:
  "create 1000 10 (Some (Num 0)) = Inr \<lparr>maxDuration = Num 0, data = [], lastUpdatedAt = 10\<rparr> \<and>
   create 1000 10 (Some (Num (3 / 2))) =
     Inr \<lparr>maxDuration = Num (3 / 2), data = [0], lastUpdatedAt = 10\<rparr>"
proof -
  have "\<lfloor>3 / 2 :: rat\<rfloor> = 1"
    by (simp add: floor_divide_of_int_eq [of 3 2, where ?'a = rat, simplified])
  then show ?thesis
    by (simp add: create_def constructor_def Uint32Array_def ToIndex_def fill_def)
qed

text \<open>
  C2, amended: \<^verbatim>\<open>create(maxDuration)\<close> throws a \<^verbatim>\<open>RangeError\<close> exactly when
  \<^verbatim>\<open>maxDuration\<close> is at most \<open>-1\<close>, is at least \<open>2 ^ 53\<close>, is infinite, or has an
  integer part above the largest length the host allocates; so every negative integer is
  rejected. Every other number is accepted: 0, not-a-number, fractions between \<open>-1\<close> and
  1 and positive non-integers give an instance that stores \<^verbatim>\<open>maxDuration\<close> as given,
  with as many zero buckets as its integer part. An absent argument is 60.
\<close>

theorem create_rejects_exactly:
  "create limit now (Some (Num r)) =
     (if r \<le> - 1 \<or> 2 ^ 53 \<le> r \<or> limit < nat \<lfloor>r\<rfloor> then Inl RangeError
      else Inr \<lparr>maxDuration = Num r, data = replicate (nat \<lfloor>r\<rfloor>) 0, lastUpdatedAt = now\<rparr>) \<and>
   create limit now (Some NaN) = Inr \<lparr>maxDuration = NaN, data = [], lastUpdatedAt = now\<rparr> \<and>
   create limit now (Some PosInf) = Inl RangeError \<and>
   create limit now (Some NegInf) = Inl RangeError \<and>
   create limit now None = create limit now (Some (Num 60))"
  using fill_all [of "replicate (nat \<lfloor>r\<rfloor>) (0 :: u32)" 0]
  by (simp add: create_def constructor_def Uint32Array_def ToIndex_Num)
    (simp add: ToIndex_def fill_def)

subsection \<open>The clock and \<^verbatim>\<open>lastUpdatedAt\<close>\<close>

lemma lastUpdatedAt_increment: "lastUpdatedAt (snd (increment now c)) = now"
  by (simp add: increment_unfold Let_def)

lemma lastUpdatedAt_getCount: "lastUpdatedAt (snd (getCount now duration c)) = now"
  by (simp add: getCount_unfold)

text \<open>
  C3 fails as stated: nothing clamps the clock reading. On an instance last accessed at
  second 10, \<^verbatim>\<open>increment\<close> and \<^verbatim>\<open>getCount\<close> under a clock reading of 5 leave
  \<^verbatim>\<open>lastUpdatedAt\<close> at 5.
\<close>

theorem lastUpdatedAt_regresses_counterexample:
  "lastUpdatedAt (snd (increment 5 \<lparr>maxDuration = 4, data = [0, 0, 0, 0], lastUpdatedAt = 10\<rparr>)) = 5 \<and>
   lastUpdatedAt (snd (getCount 5 None \<lparr>maxDuration = 4, data = [0, 0, 0, 0], lastUpdatedAt = 10\<rparr>)) = 5 \<and>
   \<not> lastUpdatedAt \<lparr>maxDuration = 4 :: nat, data = [0, 0, 0, 0], lastUpdatedAt = 10\<rparr> \<le>
     lastUpdatedAt (snd (increment 5 \<lparr>maxDuration = 4, data = [0, 0, 0, 0], lastUpdatedAt = 10\<rparr>))"
  by (simp add: increment_def getCount_def getIndex_def split_beta)

text \<open>
  C3, amended: after \<^verbatim>\<open>increment\<close> or \<^verbatim>\<open>getCount\<close> under the clock reading
  \<open>now\<close>, \<^verbatim>\<open>lastUpdatedAt\<close> is \<open>now\<close>. So it does not decrease exactly when \<open>now\<close> is
  at least its previous value; when the clock regresses it follows the clock.
\<close>

theorem lastUpdatedAt_follows_clock:
  assumes "well_formed c"
  shows "lastUpdatedAt (snd (increment now c)) = now \<and>
    lastUpdatedAt (snd (getCount now duration c)) = now \<and>
    (lastUpdatedAt c \<le> lastUpdatedAt (snd (increment now c)) \<longleftrightarrow> lastUpdatedAt c \<le> now) \<and>
    (lastUpdatedAt c \<le> lastUpdatedAt (snd (getCount now duration c)) \<longleftrightarrow>
       lastUpdatedAt c \<le> now)"
  by (simp add: lastUpdatedAt_increment lastUpdatedAt_getCount)

theorem lastUpdatedAt_follows_clock_witness:
  "well_formed \<lparr>maxDuration = 4, data = [0, 0, 0, 0], lastUpdatedAt = 10\<rparr> \<and>
   lastUpdatedAt (snd (increment 12 \<lparr>maxDuration = 4, data = [0, 0, 0, 0], lastUpdatedAt = 10\<rparr>)) = 12 \<and>
   lastUpdatedAt (snd (getCount 12 (Some (Num 2))
     \<lparr>maxDuration = 4, data = [0, 0, 0, 0], lastUpdatedAt = 10\<rparr>)) = 12"
proof -
  let ?c = "\<lparr>maxDuration = 4, data = [0, 0, 0, 0], lastUpdatedAt = 10\<rparr> :: nat counter"
  have wf: "well_formed ?c"
    by (simp add: well_formed_def)
  show ?thesis
    using wf lastUpdatedAt_follows_clock [OF wf, of 12 "Some (Num 2)"] by simp
qed

end
